theory Spec2Isabelle
  imports Main "HOL-Library.Multiset" "HOL-Library.Word"
begin

section \<open>The data model (db.py)\<close>

text \<open>
  A calendar date, written as Python writes it: \<open>date 1990 1 1\<close> is
  \<^verbatim>\<open>date(1990, 1, 1)\<close> (year, month, day).
\<close>

datatype date = date int int int

text \<open>
  The table class \<^verbatim>\<open>User\<close>: an integer primary key, a name and a date of birth.
  The field \<^verbatim>\<open>id\<close> is written \<open>id'\<close>, since \<open>id\<close> is the identity function of HOL.
  The key is the rowid of the table, a signed integer of 64 bits: a row cannot carry any
  other id. \<open>ident u\<close> is the id of the row \<open>u\<close> as the integer Python reads.
\<close>

record User =
  id' :: "64 word"
  name :: string
  dob :: date

definition ident :: "User \<Rightarrow> int" where
  "ident u = sint (id' u)"

text \<open>The largest rowid.\<close>

definition MAX_ROWID :: int where
  "MAX_ROWID = 2 ^ 63 - 1"

text \<open>
  The store is one table of \<open>User\<close> rows, kept in the order of the primary key, which
  is the order in which the store scans it. Python's integers are unbounded (\<open>int\<close>); an
  integer handed to the store as a key must fit the 64 bits, or binding it raises
  \<^verbatim>\<open>OverflowError\<close>. The failures of the store that the model has are that one, a
  violated primary key (\<^verbatim>\<open>IntegrityError\<close>) and a table with no rowid left to give
  (\<^verbatim>\<open>OperationalError\<close>); a full disk and a lost connection are outside it.
\<close>

type_synonym table = "User list"

datatype error =
    HTTPException nat string
  | IntegrityError
  | OverflowError
  | OperationalError

text \<open>
  \<^verbatim>\<open>session.get(User, i)\<close>: the row with primary key \<open>i\<close>, or \<open>None\<close>; an \<open>i\<close>
  outside the 64 bits raises.
\<close>

definition session_get :: "table \<Rightarrow> int \<Rightarrow> error + User option" where
  "session_get t i =
     (if i < - (2 ^ 63) \<or> MAX_ROWID < i then Inl OverflowError
      else Inr (find (\<lambda>u. ident u = i) t))"

text \<open>
  \<^verbatim>\<open>session.add(user)\<close> for an object that carries its id, once flushed: an
  \<^verbatim>\<open>INSERT\<close> with that id, which the primary key refuses when the id is taken.
\<close>

definition session_add :: "User \<Rightarrow> table \<Rightarrow> error + table" where
  "session_add user t =
     (if ident user \<in> ident ` set t then Inl IntegrityError
      else Inr (insort_key ident user t))"

text \<open>
  The id the store gives to a row inserted without one. An integer primary key with no
  value is filled with 1 in an empty table and with the largest id of the table plus one
  while that id is below the largest rowid. Once the largest rowid is in the table, the
  store draws positive candidates at random, at most 100 of them, and takes the first
  that no row carries; when all are taken the insert fails, the table being reported
  full. The random source is the parameter \<open>rnd\<close>: \<open>rnd n\<close> is the value of draw number
  \<open>n\<close>; \<open>candidate\<close> is what the store makes of one draw, a rowid from 1 to \<open>2 ^ 62\<close>.
\<close>

definition candidate :: "int \<Rightarrow> int" where
  "candidate r = take_bit 62 r + 1"

definition next_rowid :: "(nat \<Rightarrow> int) \<Rightarrow> table \<Rightarrow> error + int" where
  "next_rowid rnd t =
     (case t of
        [] \<Rightarrow> Inr 1
      | u # us \<Rightarrow>
          (let largest = fold max (map ident us) (ident u) in
           if largest < MAX_ROWID then Inr (largest + 1)
           else
             (case find (\<lambda>v. v \<notin> ident ` set t) (map (\<lambda>n. candidate (rnd n)) [0..<100]) of
                Some v \<Rightarrow> Inr v
              | None \<Rightarrow> Inl OperationalError)))"

text \<open>
  \<^verbatim>\<open>session.add(user)\<close> for an object built without an id (from the fields of a
  form): the \<^verbatim>\<open>INSERT\<close> leaves the id to the store.
\<close>

definition session_add_new ::
  "(nat \<Rightarrow> int) \<Rightarrow> string \<Rightarrow> date \<Rightarrow> table \<Rightarrow> error + table" where
  "session_add_new rnd n d t =
     (case next_rowid rnd t of
        Inl e \<Rightarrow> Inl e
      | Inr i \<Rightarrow> session_add \<lparr>id' = word_of_int i, name = n, dob = d\<rparr> t)"

text \<open>\<^verbatim>\<open>session.delete(user)\<close>: \<^verbatim>\<open>DELETE\<close> by primary key.\<close>

definition session_delete :: "User \<Rightarrow> table \<Rightarrow> table" where
  "session_delete user t = filter (\<lambda>u. ident u \<noteq> ident user) t"

text \<open>\<^verbatim>\<open>session.exec(select(User)).all()\<close>: every row.\<close>

definition select_all :: "table \<Rightarrow> User list" where
  "select_all t = t"

section \<open>View descriptions (the FastUI components the handlers build)\<close>

datatype event = GoToEvent string | BackEvent

datatype DisplayMode = DisplayMode_date

text \<open>\<open>DisplayLookup field mode on_click\<close>\<close>

datatype DisplayLookup = DisplayLookup string "DisplayMode option" "event option"

text \<open>The two form models of main.py.\<close>

record UserForm =
  form_name :: string
  form_dob :: date

record DeleteUserForm =
  confirm :: bool

datatype form_model = UserForm_model | DeleteUserForm_model

text \<open>
  The components, with the arguments the handlers give them:
  \<open>Heading text level\<close>, \<open>ModelForm model submit_url class_name\<close>,
  \<open>Table data columns\<close>, \<open>Div components class_name\<close>, \<open>Link components on_click\<close>.
\<close>

datatype AnyComponent =
    Page "AnyComponent list"
  | Heading string nat
  | Paragraph string
  | ModelForm form_model string "string option"
  | Table "User list" "DisplayLookup list"
  | Div "AnyComponent list" "string option"
  | Link "AnyComponent list" event
  | Button string
  | Text string
  | Details User

datatype FormResponse = FormResponse event

text \<open>The static shell: \<open>prebuilt_html title\<close> stands for the document of that title.\<close>

datatype HTMLResponse = prebuilt_html string

section \<open>Formatting an integer in a path\<close>

text \<open>Python's \<^verbatim>\<open>str\<close> of an integer, as the f-string of \<^verbatim>\<open>user_profile\<close> uses it.\<close>

function str_nat :: "nat \<Rightarrow> string" where
  "str_nat n =
     (if n < 10 then [char_of (48 + n)]
      else str_nat (n div 10) @ [char_of (48 + n mod 10)])"
  by pat_completeness auto
termination
  by (relation "measure (\<lambda>n. n)") auto

definition str_int :: "int \<Rightarrow> string" where
  "str_int i = (if i < 0 then CHR ''-'' # str_nat (nat (- i)) else str_nat (nat i))"

section \<open>Startup (lifespan)\<close>

definition users :: "User list" where
  "users =
     [\<lparr>id' = 1, name = ''John'', dob = date 1990 1 1\<rparr>,
      \<lparr>id' = 2, name = ''Jack'', dob = date 1991 1 1\<rparr>,
      \<lparr>id' = 3, name = ''Jill'', dob = date 1992 1 1\<rparr>,
      \<lparr>id' = 4, name = ''Jane'', dob = date 1993 1 1\<rparr>]"

text \<open>
  The loop of \<^verbatim>\<open>lifespan\<close> over the seed users, in one session: a user whose id is
  found is skipped (\<^verbatim>\<open>continue\<close>), any other is added. A lookup flushes the session
  first, so it sees the rows added before it; the ids of the seed users are pairwise
  different, so no lookup of the loop asks for an id the loop has added. An error ends
  the loop and start-up with it.
\<close>

fun seed :: "User list \<Rightarrow> table \<Rightarrow> error + table" where
  "seed [] t = Inr t"
| "seed (user # rest) t =
     (case session_get t (ident user) of
        Inl e \<Rightarrow> Inl e
      | Inr (Some db_user) \<Rightarrow> seed rest t
      | Inr None \<Rightarrow>
          (case session_add user t of
             Inl e \<Rightarrow> Inl e
           | Inr t' \<Rightarrow> seed rest t'))"

definition lifespan :: "table \<Rightarrow> error + table" where
  "lifespan t = seed users t"

section \<open>The request handlers (main.py)\<close>

text \<open>
  main.py gives the name \<^verbatim>\<open>add_user\<close> to two handlers; here \<open>add_user_get\<close> is the
  one of \<^verbatim>\<open>GET /api/user/add/\<close> and \<open>add_user_post\<close> the one of
  \<^verbatim>\<open>POST /api/user/add/\<close>. A handler that writes takes the table and returns the new
  one; a handler that only reads takes the table. An exception that a handler does not
  catch is its result \<open>Inl\<close>, and leaves the table as it was (the session is rolled
  back).
\<close>

definition add_user_get :: "AnyComponent list" where
  "add_user_get =
     [Page
        [Heading ''Add User'' 2,
         Paragraph ''Add a user to the system'',
         ModelForm UserForm_model ''/api/user/add/'' None]]"

definition add_user_post ::
  "(nat \<Rightarrow> int) \<Rightarrow> UserForm \<Rightarrow> table \<Rightarrow> (error + FormResponse) \<times> table" where
  "add_user_post rnd form t =
     (case session_add_new rnd (form_name form) (form_dob form) t of
        Inl e \<Rightarrow> (Inl e, t)
      | Inr t' \<Rightarrow> (Inr (FormResponse (GoToEvent ''/'')), t'))"

definition users_table :: "table \<Rightarrow> AnyComponent list" where
  "users_table t =
     (let users = select_all t in
      [Page
         [Heading ''Users'' 2,
          Table users
            [DisplayLookup ''name'' None (Some (GoToEvent ''/user/{id}/'')),
             DisplayLookup ''dob'' (Some DisplayMode_date) None],
          Div [Link [Button ''Add User''] (GoToEvent ''/user/add/'')] None]])"

definition user_profile :: "int \<Rightarrow> table \<Rightarrow> error + AnyComponent list" where
  "user_profile user_id t =
     (case session_get t user_id of
        Inl e \<Rightarrow> Inl e
      | Inr None \<Rightarrow> Inl (HTTPException 404 ''User not found'')
      | Inr (Some user) \<Rightarrow>
          Inr [Page
                 [Heading (name user) 2,
                  Link [Text ''Back''] BackEvent,
                  Details user,
                  Div [Heading ''Delete User?'' 4,
                       ModelForm DeleteUserForm_model
                         (''/api/user/'' @ str_int user_id @ ''/delete/'')
                         (Some ''text-left'')]
                      (Some ''card p-4 col-4'')]])"

definition delete_user ::
  "int \<Rightarrow> DeleteUserForm \<Rightarrow> table \<Rightarrow> (error + FormResponse) \<times> table" where
  "delete_user user_id form t =
     (case session_get t user_id of
        Inl e \<Rightarrow> (Inl e, t)
      | Inr (Some user) \<Rightarrow> (Inr (FormResponse (GoToEvent ''/'')), session_delete user t)
      | Inr None \<Rightarrow> (Inr (FormResponse (GoToEvent ''/'')), t))"

definition html_landing :: HTMLResponse where
  "html_landing = prebuilt_html ''FastUI Demo''"

subsection \<open>The application: one request, one handler\<close>

datatype request =
    GET_user_add
  | POST_user_add UserForm
  | GET_api
  | GET_user int
  | POST_user_delete int DeleteUserForm
  | GET_path string

datatype response =
    FastUI "AnyComponent list"
  | Form FormResponse
  | HTML HTMLResponse
  | Failed error

text \<open>
  \<open>app rnd request t\<close>: the response to one request and the table after it, \<open>rnd\<close>
  being the random source of the store during the request.
\<close>

fun app :: "(nat \<Rightarrow> int) \<Rightarrow> request \<Rightarrow> table \<Rightarrow> response \<times> table" where
  "app rnd GET_user_add t = (FastUI add_user_get, t)"
| "app rnd (POST_user_add form) t =
     (case add_user_post rnd form t of
        (Inl e, t') \<Rightarrow> (Failed e, t')
      | (Inr r, t') \<Rightarrow> (Form r, t'))"
| "app rnd GET_api t = (FastUI (users_table t), t)"
| "app rnd (GET_user user_id) t =
     (case user_profile user_id t of
        Inl e \<Rightarrow> (Failed e, t)
      | Inr page \<Rightarrow> (FastUI page, t))"
| "app rnd (POST_user_delete user_id form) t =
     (case delete_user user_id form t of
        (Inl e, t') \<Rightarrow> (Failed e, t')
      | (Inr r, t') \<Rightarrow> (Form r, t'))"
| "app rnd (GET_path p) t = (HTML html_landing, t)"

text \<open>What a page of the list view lists: the rows of its table.\<close>

definition listed :: "AnyComponent list \<Rightarrow> User list" where
  "listed page =
     (case page of
        [Page [heading, Table data columns, links]] \<Rightarrow> data
      | _ \<Rightarrow> [])"

section \<open>Lookups after the primitives of the store\<close>

lemma ident_ge: "- (2 ^ 63) \<le> ident u"
  using sint_ge [of "id' u"] by (simp add: ident_def)

lemma ident_le: "ident u \<le> MAX_ROWID"
  using sint_lt [of "id' u"] by (simp add: ident_def MAX_ROWID_def)

lemma ident_word_of_int:
  "- (2 ^ 63) \<le> i \<Longrightarrow> i \<le> MAX_ROWID \<Longrightarrow>
   ident \<lparr>id' = word_of_int i, name = n, dob = d\<rparr> = i"
  by (simp add: ident_def MAX_ROWID_def sint_sbintrunc' signed_take_bit_int_eq_self)

lemma session_get_fits:
  "- (2 ^ 63) \<le> i \<Longrightarrow> i \<le> MAX_ROWID \<Longrightarrow>
   session_get t i = Inr (find (\<lambda>u. ident u = i) t)"
  by (simp add: session_get_def)

lemma session_get_overflow:
  "i < - (2 ^ 63) \<or> MAX_ROWID < i \<Longrightarrow> session_get t i = Inl OverflowError"
  by (simp add: session_get_def)

lemma session_get_ident: "session_get t (ident u) = Inr (find (\<lambda>v. ident v = ident u) t)"
  using ident_ge [of u] ident_le [of u] by (rule session_get_fits)

lemma session_get_None_iff:
  "- (2 ^ 63) \<le> i \<Longrightarrow> i \<le> MAX_ROWID \<Longrightarrow>
   session_get t i = Inr None \<longleftrightarrow> i \<notin> ident ` set t"
  by (auto simp: session_get_fits find_None_iff)

lemma session_get_SomeD: "session_get t i = Inr (Some u) \<Longrightarrow> u \<in> set t \<and> ident u = i"
  by (auto simp: session_get_def find_Some_iff split: if_splits)

lemma session_get_Some_mem: "session_get t i = Inr (Some u) \<Longrightarrow> i \<in> ident ` set t"
  using session_get_SomeD by blast

lemma session_get_present: "i \<in> ident ` set t \<Longrightarrow> \<exists>u. session_get t i = Inr (Some u)"
proof -
  assume "i \<in> ident ` set t"
  then obtain v where v: "v \<in> set t" "i = ident v" by auto
  then have "find (\<lambda>u. ident u = i) t \<noteq> None" by (auto simp: find_None_iff)
  moreover have "session_get t i = Inr (find (\<lambda>u. ident u = i) t)"
    unfolding v(2) by (rule session_get_ident)
  ultimately show ?thesis by auto
qed

lemma session_get_absent:
  "- (2 ^ 63) \<le> i \<Longrightarrow> i < 2 ^ 63 \<Longrightarrow> i \<notin> ident ` set t \<Longrightarrow> session_get t i = Inr None"
  by (simp add: session_get_None_iff MAX_ROWID_def)

lemma session_get_insort_other:
  "ident u \<noteq> i \<Longrightarrow> session_get (insort_key ident u t) i = session_get t i"
  by (induction t) (auto simp: session_get_def)

lemma session_get_insort_same:
  "ident u \<notin> ident ` set t \<Longrightarrow> session_get (insort_key ident u t) (ident u) = Inr (Some u)"
proof -
  assume "ident u \<notin> ident ` set t"
  then have "find (\<lambda>v. ident v = ident u) (insort_key ident u t) = Some u"
    by (induction t) auto
  then show ?thesis by (simp add: session_get_ident)
qed

lemma session_get_filter_other:
  "j \<noteq> i \<Longrightarrow> session_get (filter (\<lambda>u. ident u \<noteq> j) t) i = session_get t i"
  by (induction t) (auto simp: session_get_def)

lemma fold_max_ge: "x \<in> set (a # xs) \<Longrightarrow> (x::int) \<le> fold max xs a"
proof -
  assume "x \<in> set (a # xs)"
  then have "x \<le> Max (set (a # xs))" by (intro Max_ge) auto
  then show ?thesis by (simp only: Max.set_eq_fold)
qed

lemma fold_max_mem: "fold max xs a \<in> set ((a::int) # xs)"
proof -
  have "Max (set (a # xs)) \<in> set (a # xs)" by (intro Max_in) auto
  then show ?thesis by (simp only: Max.set_eq_fold)
qed

lemma largest_ge: "u \<in> set (v # vs) \<Longrightarrow> ident u \<le> fold max (map ident vs) (ident v)"
proof -
  assume "u \<in> set (v # vs)"
  then have "ident u \<in> set (ident v # map ident vs)" by auto
  then show ?thesis by (rule fold_max_ge)
qed

lemma largest_fits: "- (2 ^ 63) \<le> fold max (map ident vs) (ident v)"
proof -
  have "fold max (map ident vs) (ident v) \<in> set (ident v # map ident vs)"
    by (rule fold_max_mem)
  then obtain u where "fold max (map ident vs) (ident v) = ident u" by auto
  then show ?thesis using ident_ge [of u] by simp
qed

lemma candidate_fits: "1 \<le> candidate r \<and> candidate r \<le> MAX_ROWID"
proof -
  have "take_bit 62 r < (2 ^ 62 :: int)" by (rule take_bit_int_less_exp)
  moreover have "0 \<le> take_bit 62 r" by simp
  ultimately show ?thesis by (simp add: candidate_def MAX_ROWID_def)
qed

lemma next_rowid_unused:
  assumes "next_rowid rnd t = Inr i"
  shows "i \<notin> ident ` set t \<and> - (2 ^ 63) \<le> i \<and> i \<le> MAX_ROWID"
proof (cases t)
  case Nil
  with assms show ?thesis by (auto simp: next_rowid_def MAX_ROWID_def)
next
  case (Cons v vs)
  let ?largest = "fold max (map ident vs) (ident v)"
  show ?thesis
  proof (cases "?largest < MAX_ROWID")
    case True
    with Cons assms have i: "i = ?largest + 1" by (simp add: next_rowid_def)
    have "\<forall>u\<in>set t. ident u < i" using largest_ge [of _ v vs] Cons i by fastforce
    then have "i \<notin> ident ` set t" by auto
    moreover have "- (2 ^ 63) \<le> i" using largest_fits [of vs v] i by simp
    ultimately show ?thesis using True i by simp
  next
    case False
    with Cons assms have
      "find (\<lambda>c. c \<notin> ident ` set t) (map (\<lambda>n. candidate (rnd n)) [0..<100]) = Some i"
      by (simp add: next_rowid_def split: option.splits)
    then have unused: "i \<notin> ident ` set t" and "\<exists>n. i = candidate (rnd n)"
      by (auto simp: find_Some_iff)
    then obtain n where "i = candidate (rnd n)" by blast
    then have "1 \<le> i \<and> i \<le> MAX_ROWID" by (simp add: candidate_fits)
    with unused show ?thesis by simp
  qed
qed

lemma next_rowid_below:
  assumes "\<forall>u\<in>set t. ident u < MAX_ROWID"
  shows "\<exists>i. next_rowid rnd t = Inr i"
proof (cases t)
  case Nil
  then show ?thesis by (simp add: next_rowid_def)
next
  case (Cons v vs)
  have "fold max (map ident vs) (ident v) \<in> set (ident v # map ident vs)"
    by (rule fold_max_mem)
  then obtain u where "u \<in> set (v # vs)" "fold max (map ident vs) (ident v) = ident u"
    by auto
  with assms Cons have "fold max (map ident vs) (ident v) < MAX_ROWID" by auto
  with Cons show ?thesis by (simp add: next_rowid_def)
qed

lemma next_rowid_drawn:
  assumes "\<exists>n<100. candidate (rnd n) \<notin> ident ` set t"
  shows "\<exists>i. next_rowid rnd t = Inr i"
proof -
  from assms obtain n where n: "n < 100" "candidate (rnd n) \<notin> ident ` set t" by auto
  then have "candidate (rnd n) \<in> set (map (\<lambda>n. candidate (rnd n)) [0..<100])" by auto
  with n(2) have
    "find (\<lambda>c. c \<notin> ident ` set t) (map (\<lambda>n. candidate (rnd n)) [0..<100]) \<noteq> None"
    unfolding find_None_iff by blast
  then show ?thesis
    by (cases t) (auto simp: next_rowid_def Let_def split: option.splits)
qed

lemma session_add_new_Inr:
  assumes "next_rowid rnd t = Inr i"
  shows "session_add_new rnd n d t
           = Inr (insort_key ident \<lparr>id' = word_of_int i, name = n, dob = d\<rparr> t)"
proof -
  from assms have "i \<notin> ident ` set t" "- (2 ^ 63) \<le> i" "i \<le> MAX_ROWID"
    using next_rowid_unused by blast+
  then have "ident \<lparr>id' = word_of_int i, name = n, dob = d\<rparr> \<notin> ident ` set t"
    by (simp add: ident_word_of_int)
  with assms show ?thesis by (simp add: session_add_new_def session_add_def)
qed

lemma add_user_post_Inr:
  "next_rowid rnd t = Inr i \<Longrightarrow>
   add_user_post rnd form t =
     (Inr (FormResponse (GoToEvent ''/'')),
      insort_key ident \<lparr>id' = word_of_int i, name = form_name form, dob = form_dob form\<rparr> t)"
  by (simp add: add_user_post_def session_add_new_Inr)

lemma add_user_post_Inl:
  "next_rowid rnd t = Inl e \<Longrightarrow> add_user_post rnd form t = (Inl e, t)"
  by (simp add: add_user_post_def session_add_new_def)

lemma delete_user_fits:
  assumes "- (2 ^ 63) \<le> i" and "i \<le> MAX_ROWID"
  shows "delete_user i form t
           = (Inr (FormResponse (GoToEvent ''/'')), filter (\<lambda>u. ident u \<noteq> i) t)"
proof (cases "find (\<lambda>u. ident u = i) t")
  case None
  then have "\<forall>u\<in>set t. ident u \<noteq> i" by (auto simp: find_None_iff)
  then have "filter (\<lambda>u. ident u \<noteq> i) t = t" by (simp add: filter_id_conv)
  with None assms show ?thesis by (simp add: delete_user_def session_get_fits)
next
  case (Some u)
  then have "ident u = i" by (auto simp: find_Some_iff)
  with Some assms show ?thesis
    by (simp add: delete_user_def session_get_fits session_delete_def)
qed

lemma delete_user_overflow:
  "i < - (2 ^ 63) \<or> MAX_ROWID < i \<Longrightarrow> delete_user i form t = (Inl OverflowError, t)"
  by (simp add: delete_user_def session_get_overflow)

lemma listed_users_table: "listed (users_table t) = t"
  by (simp add: listed_def users_table_def select_all_def)

section \<open>What the seeding loop does to a table\<close>

lemma session_add_absent:
  "ident u \<notin> ident ` set t \<Longrightarrow> session_add u t = Inr (insort_key ident u t)"
  by (simp add: session_add_def)

lemma seed_absent:
  "ident u \<notin> ident ` set t \<Longrightarrow> seed (u # us) t = seed us (insort_key ident u t)"
proof -
  assume a: "ident u \<notin> ident ` set t"
  then have "session_get t (ident u) = Inr None"
    using ident_ge [of u] ident_le [of u] by (simp add: session_get_None_iff)
  with a show ?thesis by (simp add: session_add_absent)
qed

lemma seed_found:
  "ident u \<in> ident ` set t \<Longrightarrow> seed (u # us) t = seed us t"
proof -
  assume "ident u \<in> ident ` set t"
  then obtain v where "session_get t (ident u) = Inr (Some v)"
    using session_get_present by blast
  then show ?thesis by simp
qed

lemma seed_Inr: "\<exists>t'. seed us t = Inr t'"
proof (induction us arbitrary: t)
  case Nil
  show ?case by simp
next
  case (Cons u us)
  show ?case
  proof (cases "ident u \<in> ident ` set t")
    case True
    with Cons.IH [of t] show ?thesis by (simp add: seed_found del: seed.simps)
  next
    case False
    with Cons.IH [of "insort_key ident u t"] show ?thesis by (simp add: seed_absent del: seed.simps)
  qed
qed

lemma seed_present: "\<forall>u\<in>set us. ident u \<in> ident ` set t \<Longrightarrow> seed us t = Inr t"
proof (induction us)
  case Nil
  show ?case by simp
next
  case (Cons u us)
  then have "ident u \<in> ident ` set t" by simp
  then have "seed (u # us) t = seed us t" by (rule seed_found)
  with Cons show ?case by simp
qed

lemma seed_ids: "seed us t = Inr t' \<Longrightarrow> ident ` set t' = ident ` set t \<union> ident ` set us"
proof (induction us arbitrary: t)
  case Nil
  then show ?case by simp
next
  case (Cons u us)
  show ?case
  proof (cases "ident u \<in> ident ` set t")
    case True
    with Cons.prems have "seed us t = Inr t'" by (simp add: seed_found del: seed.simps)
    then have "ident ` set t' = ident ` set t \<union> ident ` set us" by (rule Cons.IH)
    with True show ?thesis by auto
  next
    case False
    with Cons.prems have "seed us (insort_key ident u t) = Inr t'" by (simp add: seed_absent del: seed.simps)
    then have "ident ` set t' = ident ` set (insort_key ident u t) \<union> ident ` set us"
      by (rule Cons.IH)
    then show ?thesis by (simp add: set_insort_key)
  qed
qed

lemma seed_mset:
  "distinct (map ident us) \<Longrightarrow> seed us t = Inr t' \<Longrightarrow>
   mset t' = mset t + mset (filter (\<lambda>u. ident u \<notin> ident ` set t) us)"
proof (induction us arbitrary: t)
  case Nil
  then show ?case by simp
next
  case (Cons u us)
  from Cons.prems have d: "distinct (map ident us)" and nu: "ident u \<notin> ident ` set us"
    by auto
  from nu have nu': "\<forall>v\<in>set us. ident v \<noteq> ident u" by (metis image_eqI)
  show ?case
  proof (cases "ident u \<in> ident ` set t")
    case True
    with Cons.prems have "seed us t = Inr t'" by (simp add: seed_found del: seed.simps)
    with d have "mset t' = mset t + mset (filter (\<lambda>v. ident v \<notin> ident ` set t) us)"
      by (rule Cons.IH)
    with True show ?thesis by simp
  next
    case False
    with Cons.prems have "seed us (insort_key ident u t) = Inr t'" by (simp add: seed_absent del: seed.simps)
    with d have "mset t' = mset (insort_key ident u t)
        + mset (filter (\<lambda>v. ident v \<notin> ident ` set (insort_key ident u t)) us)"
      by (rule Cons.IH)
    moreover have "filter (\<lambda>v. ident v \<notin> ident ` set (insort_key ident u t)) us
        = filter (\<lambda>v. ident v \<notin> ident ` set t) us"
      using nu' by (intro filter_cong) (auto simp: set_insort_key)
    ultimately show ?thesis using False by simp
  qed
qed

lemma seed_distinct:
  "seed us t = Inr t' \<Longrightarrow> distinct (map ident t) \<Longrightarrow> distinct (map ident t')"
proof (induction us arbitrary: t)
  case Nil
  then show ?case by simp
next
  case (Cons u us)
  show ?case
  proof (cases "ident u \<in> ident ` set t")
    case True
    with Cons.prems have "seed us t = Inr t'" by (simp add: seed_found del: seed.simps)
    then show ?thesis using Cons.prems(2) by (rule Cons.IH)
  next
    case False
    with Cons.prems have "seed us (insort_key ident u t) = Inr t'" by (simp add: seed_absent del: seed.simps)
    moreover have "distinct (map ident (insort_key ident u t))"
      using False Cons.prems(2) by (simp add: distinct_insort_key)
    ultimately show ?thesis by (rule Cons.IH)
  qed
qed

lemma seed_get:
  "seed us t = Inr t' \<Longrightarrow> session_get t i = Inr (Some v) \<Longrightarrow> session_get t' i = Inr (Some v)"
proof (induction us arbitrary: t)
  case Nil
  then show ?case by simp
next
  case (Cons u us)
  show ?case
  proof (cases "ident u \<in> ident ` set t")
    case True
    with Cons.prems have "seed us t = Inr t'" by (simp add: seed_found del: seed.simps)
    then show ?thesis using Cons.prems(2) by (rule Cons.IH)
  next
    case False
    from Cons.prems(2) have "i \<in> ident ` set t" by (rule session_get_Some_mem)
    with False have ne: "ident u \<noteq> i" by auto
    from False Cons.prems have "seed us (insort_key ident u t) = Inr t'"
      by (simp add: seed_absent del: seed.simps)
    moreover have "session_get (insort_key ident u t) i = Inr (Some v)"
      using ne Cons.prems(2) by (simp add: session_get_insort_other)
    ultimately show ?thesis by (rule Cons.IH)
  qed
qed

lemma distinct_users: "distinct (map ident users)"
  by (simp add: users_def ident_def)

section \<open>Adding a user\<close>

text \<open>
  Claim C1. For every form \<open>{name, dob}\<close>, the handler of \<^verbatim>\<open>POST /api/user/add/\<close>
  inserts exactly one row whenever the store has an id to give: when every id of the
  table is below the largest rowid, or one of the 100 candidates it draws is unused. The
  handler then succeeds; the table afterwards is the table before plus one row carrying
  the submitted fields, so the number of users grows by one; the id the store gave to
  the row was free before, and a lookup by that id returns the row.
\<close>

theorem add_user_inserts_one_row:
  assumes "(\<forall>u\<in>set t. ident u < MAX_ROWID) \<or> (\<exists>n<100. candidate (rnd n) \<notin> ident ` set t)"
  shows "\<exists>i. next_rowid rnd t = Inr i
           \<and> (case add_user_post rnd form t of
                (r, t') \<Rightarrow>
                  r = Inr (FormResponse (GoToEvent ''/''))
                  \<and> length (select_all t') = length (select_all t) + 1
                  \<and> mset t' =
                      add_mset \<lparr>id' = word_of_int i, name = form_name form, dob = form_dob form\<rparr>
                        (mset t)
                  \<and> session_get t i = Inr None
                  \<and> session_get t' i =
                      Inr (Some \<lparr>id' = word_of_int i, name = form_name form,
                                 dob = form_dob form\<rparr>))"
proof -
  from assms obtain i where i: "next_rowid rnd t = Inr i"
    using next_rowid_below next_rowid_drawn by blast
  let ?u = "\<lparr>id' = word_of_int i, name = form_name form, dob = form_dob form\<rparr>"
  from i have unused: "i \<notin> ident ` set t" and fits: "- (2 ^ 63) \<le> i" "i \<le> MAX_ROWID"
    using next_rowid_unused by blast+
  from fits have id: "ident ?u = i" by (rule ident_word_of_int)
  with unused have "ident ?u \<notin> ident ` set t" by simp
  then have "session_get (insort_key ident ?u t) (ident ?u) = Inr (Some ?u)"
    by (rule session_get_insort_same)
  with id have after: "session_get (insort_key ident ?u t) i = Inr (Some ?u)" by simp
  have before: "session_get t i = Inr None"
    using fits unused by (simp add: session_get_None_iff)
  from i have "add_user_post rnd form t
      = (Inr (FormResponse (GoToEvent ''/'')), insort_key ident ?u t)"
    by (rule add_user_post_Inr)
  with i before after show ?thesis by (simp add: select_all_def)
qed

theorem add_user_inserts_one_row_witness:
  "((\<forall>u\<in>set [\<lparr>id' = 9223372036854775807, name = ''Max'', dob = date 1990 1 1\<rparr>].
       ident u < MAX_ROWID)
    \<or> (\<exists>n<100::nat. candidate 41
          \<notin> ident ` set [\<lparr>id' = 9223372036854775807, name = ''Max'', dob = date 1990 1 1\<rparr>]))
   \<and> (\<exists>i. next_rowid (\<lambda>n. 41)
              [\<lparr>id' = 9223372036854775807, name = ''Max'', dob = date 1990 1 1\<rparr>] = Inr i
        \<and> (case add_user_post (\<lambda>n. 41) \<lparr>form_name = ''Amy'', form_dob = date 1994 1 1\<rparr>
                   [\<lparr>id' = 9223372036854775807, name = ''Max'', dob = date 1990 1 1\<rparr>] of
              (r, t') \<Rightarrow>
                r = Inr (FormResponse (GoToEvent ''/''))
                \<and> length (select_all t')
                    = length (select_all
                        [\<lparr>id' = 9223372036854775807, name = ''Max'', dob = date 1990 1 1\<rparr>]) + 1
                \<and> mset t' =
                    add_mset
                      \<lparr>id' = word_of_int i,
                        name = form_name \<lparr>form_name = ''Amy'', form_dob = date 1994 1 1\<rparr>,
                        dob = form_dob \<lparr>form_name = ''Amy'', form_dob = date 1994 1 1\<rparr>\<rparr>
                      (mset [\<lparr>id' = 9223372036854775807, name = ''Max'',
                              dob = date 1990 1 1\<rparr>])
                \<and> session_get
                      [\<lparr>id' = 9223372036854775807, name = ''Max'', dob = date 1990 1 1\<rparr>] i
                    = Inr None
                \<and> session_get t' i =
                    Inr (Some
                      \<lparr>id' = word_of_int i,
                        name = form_name \<lparr>form_name = ''Amy'', form_dob = date 1994 1 1\<rparr>,
                        dob = form_dob \<lparr>form_name = ''Amy'', form_dob = date 1994 1 1\<rparr>\<rparr>)))"
proof -
  let ?t = "[\<lparr>id' = 9223372036854775807, name = ''Max'', dob = date 1990 1 1\<rparr>]"
  let ?rnd = "\<lambda>n::nat. 41::int"
  have "candidate (?rnd 0) \<notin> ident ` set ?t" by (simp add: candidate_def ident_def)
  then have h: "(\<forall>u\<in>set ?t. ident u < MAX_ROWID)
           \<or> (\<exists>n<100. candidate (?rnd n) \<notin> ident ` set ?t)"
    by (intro disjI2 exI [of _ 0]) simp
  show ?thesis
    using h
      add_user_inserts_one_row [OF h, of "\<lparr>form_name = ''Amy'', form_dob = date 1994 1 1\<rparr>"]
    by (rule conjI)
qed

section \<open>The detail view\<close>

text \<open>
  Claim C2, with the bound it needs. For every id that fits the 64 bits of the key and
  that no row of the table carries, the handler of \<^verbatim>\<open>GET /api/user/{id}/\<close> fails with
  the HTTP error 404 and returns no page.
\<close>

theorem user_profile_absent_404:
  assumes "- (2 ^ 63) \<le> user_id" and "user_id < 2 ^ 63"
    and "user_id \<notin> ident ` set t"
  shows "user_profile user_id t = Inl (HTTPException 404 ''User not found'')
       \<and> app rnd (GET_user user_id) t = (Failed (HTTPException 404 ''User not found''), t)"
proof -
  from assms have "session_get t user_id = Inr None" by (rule session_get_absent)
  then show ?thesis by (simp add: user_profile_def)
qed

theorem user_profile_absent_404_witness:
  "- (2 ^ 63) \<le> (7::int) \<and> (7::int) < 2 ^ 63 \<and> 7 \<notin> ident ` set users
   \<and> user_profile 7 users = Inl (HTTPException 404 ''User not found'')
   \<and> app (\<lambda>n. 0) (GET_user 7) users
       = (Failed (HTTPException 404 ''User not found''), users)"
proof -
  have h1: "- (2 ^ 63) \<le> (7::int)" by simp
  have h2: "(7::int) < 2 ^ 63" by simp
  have h3: "(7::int) \<notin> ident ` set users" by (simp add: users_def ident_def)
  show ?thesis
    using h1 h2 h3 user_profile_absent_404 [OF h1 h2 h3, where rnd = "\<lambda>n. 0"] by blast
qed

text \<open>
  Without the bound the lookup itself fails: \<open>2 ^ 63\<close> is the id of no row, and the
  detail view of it ends in \<^verbatim>\<open>OverflowError\<close>, which is not the error 404.
\<close>

theorem user_profile_absent_overflow:
  "(9223372036854775808::int) \<notin> ident ` set users
   \<and> user_profile 9223372036854775808 users = Inl OverflowError
   \<and> user_profile 9223372036854775808 users \<noteq> Inl (HTTPException 404 ''User not found'')"
  by (simp add: user_profile_def session_get_def MAX_ROWID_def users_def ident_def)

text \<open>
  Claim C7. For every id that a row of the table carries, the handler of
  \<^verbatim>\<open>GET /api/user/{id}/\<close> returns a page whose heading is the name of that row.
\<close>

theorem user_profile_heading:
  assumes "user_id \<in> ident ` set t"
  shows "\<exists>user rest.
           session_get t user_id = Inr (Some user) \<and> user \<in> set t \<and> ident user = user_id
           \<and> user_profile user_id t = Inr [Page (Heading (name user) 2 # rest)]
           \<and> app rnd (GET_user user_id) t
               = (FastUI [Page (Heading (name user) 2 # rest)], t)"
proof -
  from assms obtain user where g: "session_get t user_id = Inr (Some user)"
    using session_get_present by blast
  then have "user \<in> set t \<and> ident user = user_id" by (rule session_get_SomeD)
  with g show ?thesis by (simp add: user_profile_def)
qed

theorem user_profile_heading_witness:
  "(2::int) \<in> ident ` set users
   \<and> (\<exists>user rest.
         session_get users 2 = Inr (Some user) \<and> user \<in> set users \<and> ident user = 2
         \<and> user_profile 2 users = Inr [Page (Heading (name user) 2 # rest)]
         \<and> app (\<lambda>n. 0) (GET_user 2) users
             = (FastUI [Page (Heading (name user) 2 # rest)], users))"
proof -
  have h: "(2::int) \<in> ident ` set users" by (simp add: users_def ident_def)
  show ?thesis using h user_profile_heading [OF h, where rnd = "\<lambda>n. 0"] by (rule conjI)
qed

section \<open>Deleting a user\<close>

text \<open>
  Claim C3. For every id that a row of the table carries, the handler of
  \<^verbatim>\<open>POST /api/user/{id}/delete/\<close> removes the row: it answers with its navigation
  event, the table afterwards is shorter, no row of it carries the id, and the detail
  view of the id then fails with 404.
\<close>

theorem delete_user_then_404:
  assumes "user_id \<in> ident ` set t"
  shows "case delete_user user_id form t of
           (r, t') \<Rightarrow>
             r = Inr (FormResponse (GoToEvent ''/''))
             \<and> length (select_all t') < length (select_all t)
             \<and> user_id \<notin> ident ` set t'
             \<and> user_profile user_id t' = Inl (HTTPException 404 ''User not found'')
             \<and> app rnd (GET_user user_id) t'
                 = (Failed (HTTPException 404 ''User not found''), t')"
proof -
  let ?t' = "filter (\<lambda>u. ident u \<noteq> user_id) t"
  from assms obtain u where u: "u \<in> set t" "user_id = ident u" by auto
  have fits: "- (2 ^ 63) \<le> user_id" "user_id \<le> MAX_ROWID"
    unfolding u(2) by (rule ident_ge, rule ident_le)
  have absent: "user_id \<notin> ident ` set ?t'" by auto
  with fits have "session_get ?t' user_id = Inr None" by (simp add: session_get_None_iff)
  then have "user_profile user_id ?t' = Inl (HTTPException 404 ''User not found'')"
    by (simp add: user_profile_def)
  moreover from u have "\<not> ident u \<noteq> user_id" by simp
  with u(1) have "length ?t' < length t" by (rule length_filter_less)
  moreover have "delete_user user_id form t = (Inr (FormResponse (GoToEvent ''/'')), ?t')"
    using fits by (rule delete_user_fits)
  ultimately show ?thesis using absent by (simp add: select_all_def)
qed

theorem delete_user_then_404_witness:
  "(2::int) \<in> ident ` set users
   \<and> (case delete_user 2 \<lparr>confirm = True\<rparr> users of
         (r, t') \<Rightarrow>
           r = Inr (FormResponse (GoToEvent ''/''))
           \<and> length (select_all t') < length (select_all users)
           \<and> 2 \<notin> ident ` set t'
           \<and> user_profile 2 t' = Inl (HTTPException 404 ''User not found'')
           \<and> app (\<lambda>n. 0) (GET_user 2) t'
               = (Failed (HTTPException 404 ''User not found''), t'))"
proof -
  have h: "(2::int) \<in> ident ` set users" by (simp add: users_def ident_def)
  show ?thesis
    using h delete_user_then_404 [OF h, where form = "\<lparr>confirm = True\<rparr>" and rnd = "\<lambda>n. 0"] by (rule conjI)
qed

text \<open>
  Claim C5, with the bound it needs. For every id that fits the 64 bits of the key and
  that no row of the table carries, the handler of \<^verbatim>\<open>POST /api/user/{id}/delete/\<close>
  raises nothing, answers with its navigation event and leaves the table as it was.
\<close>

theorem delete_user_absent_noop:
  assumes "- (2 ^ 63) \<le> user_id" and "user_id < 2 ^ 63"
    and "user_id \<notin> ident ` set t"
  shows "delete_user user_id form t = (Inr (FormResponse (GoToEvent ''/'')), t)
       \<and> app rnd (POST_user_delete user_id form) t
           = (Form (FormResponse (GoToEvent ''/'')), t)"
proof -
  from assms have "session_get t user_id = Inr None" by (rule session_get_absent)
  then show ?thesis by (simp add: delete_user_def)
qed

theorem delete_user_absent_noop_witness:
  "- (2 ^ 63) \<le> (7::int) \<and> (7::int) < 2 ^ 63 \<and> 7 \<notin> ident ` set users
   \<and> delete_user 7 \<lparr>confirm = True\<rparr> users = (Inr (FormResponse (GoToEvent ''/'')), users)
   \<and> app (\<lambda>n. 0) (POST_user_delete 7 \<lparr>confirm = True\<rparr>) users
       = (Form (FormResponse (GoToEvent ''/'')), users)"
proof -
  have h1: "- (2 ^ 63) \<le> (7::int)" by simp
  have h2: "(7::int) < 2 ^ 63" by simp
  have h3: "(7::int) \<notin> ident ` set users" by (simp add: users_def ident_def)
  show ?thesis
    using h1 h2 h3
      delete_user_absent_noop
        [OF h1 h2 h3, where form = "\<lparr>confirm = True\<rparr>" and rnd = "\<lambda>n. 0"]
    by blast
qed

text \<open>
  Without the bound the handler raises: deleting the id \<open>2 ^ 63\<close>, which no row carries,
  ends in \<^verbatim>\<open>OverflowError\<close>; the table is left as it was, but the request has failed.
\<close>

theorem delete_user_absent_overflow:
  "(9223372036854775808::int) \<notin> ident ` set users
   \<and> delete_user 9223372036854775808 \<lparr>confirm = True\<rparr> users = (Inl OverflowError, users)
   \<and> fst (delete_user 9223372036854775808 \<lparr>confirm = True\<rparr> users)
       \<noteq> Inr (FormResponse (GoToEvent ''/''))"
  by (simp add: delete_user_def session_get_def MAX_ROWID_def users_def ident_def)

text \<open>
  Claim C6. The handler of \<^verbatim>\<open>POST /api/user/{id}/delete/\<close> does not look at the
  confirmation flag: for every id and every table, the submission with the flag set and
  the one with the flag cleared give the same response and the same table, and in both
  no row carries the id afterwards.
\<close>

theorem delete_user_ignores_confirm:
  "delete_user user_id \<lparr>confirm = True\<rparr> t = delete_user user_id \<lparr>confirm = False\<rparr> t
   \<and> app rnd (POST_user_delete user_id \<lparr>confirm = True\<rparr>) t
       = app rnd (POST_user_delete user_id \<lparr>confirm = False\<rparr>) t
   \<and> user_id \<notin> ident ` set (snd (delete_user user_id \<lparr>confirm = False\<rparr> t))"
proof (cases "user_id < - (2 ^ 63) \<or> MAX_ROWID < user_id")
  case True
  have "user_id \<notin> ident ` set t"
  proof
    assume "user_id \<in> ident ` set t"
    then obtain u where "user_id = ident u" by auto
    with True show False using ident_ge [of u] ident_le [of u] by auto
  qed
  with True show ?thesis by (simp add: delete_user_overflow)
next
  case False
  then have fits: "- (2 ^ 63) \<le> user_id" "user_id \<le> MAX_ROWID" by auto
  have "user_id \<notin> ident ` set (filter (\<lambda>u. ident u \<noteq> user_id) t)" by auto
  then show ?thesis by (simp add: delete_user_fits [OF fits])
qed

text \<open>
  Claim C10, with the bound it needs. For every id that fits the 64 bits of the key,
  the response of the handler of \<^verbatim>\<open>POST /api/user/{id}/delete/\<close> is the navigation
  event to \<^verbatim>\<open>/\<close> for every form and table, whether a row carries the id or not: the
  response alone does not tell the two cases apart.
\<close>

theorem delete_user_response_constant:
  assumes "- (2 ^ 63) \<le> user_id" and "user_id < 2 ^ 63"
  shows "fst (delete_user user_id form t) = Inr (FormResponse (GoToEvent ''/''))
       \<and> fst (app rnd (POST_user_delete user_id form) t)
           = Form (FormResponse (GoToEvent ''/''))"
proof -
  from assms have "user_id \<le> MAX_ROWID" by (simp add: MAX_ROWID_def)
  with assms(1) show ?thesis by (simp add: delete_user_fits)
qed

theorem delete_user_response_constant_witness:
  "- (2 ^ 63) \<le> (2::int) \<and> (2::int) < 2 ^ 63
   \<and> - (2 ^ 63) \<le> (7::int) \<and> (7::int) < 2 ^ 63
   \<and> 2 \<in> ident ` set users \<and> 7 \<notin> ident ` set users
   \<and> fst (delete_user 2 \<lparr>confirm = True\<rparr> users) = Inr (FormResponse (GoToEvent ''/''))
   \<and> fst (delete_user 7 \<lparr>confirm = True\<rparr> users) = Inr (FormResponse (GoToEvent ''/''))"
proof -
  have a1: "- (2 ^ 63) \<le> (2::int)" and a2: "(2::int) < 2 ^ 63" by simp_all
  have b1: "- (2 ^ 63) \<le> (7::int)" and b2: "(7::int) < 2 ^ 63" by simp_all
  have m: "2 \<in> ident ` set users \<and> 7 \<notin> ident ` set users"
    by (simp add: users_def ident_def)
  show ?thesis
    using a1 a2 b1 b2 m
      delete_user_response_constant
        [OF a1 a2, where form = "\<lparr>confirm = True\<rparr>" and t = users and rnd = "\<lambda>n. 0"]
      delete_user_response_constant
        [OF b1 b2, where form = "\<lparr>confirm = True\<rparr>" and t = users and rnd = "\<lambda>n. 0"]
    by blast
qed

text \<open>
  Without the bound the response does tell: for the id \<open>2 ^ 63\<close>, which no row can
  carry, the handler ends in \<^verbatim>\<open>OverflowError\<close>, while for the id of a row it answers
  with the navigation event.
\<close>

theorem delete_user_response_overflow:
  "fst (delete_user 9223372036854775808 \<lparr>confirm = True\<rparr> users) = Inl OverflowError
   \<and> fst (delete_user 2 \<lparr>confirm = True\<rparr> users) = Inr (FormResponse (GoToEvent ''/''))
   \<and> fst (app (\<lambda>n. 0) (POST_user_delete 9223372036854775808 \<lparr>confirm = True\<rparr>) users)
       = Failed OverflowError"
  by (simp add: delete_user_def session_get_def MAX_ROWID_def users_def ident_def)

section \<open>Startup\<close>

text \<open>
  Claim C4. Seeding is idempotent. From every table, start-up succeeds, and a second
  start-up on its result succeeds and changes nothing. The first one keeps every row and
  adds exactly the seed users whose id no row carried, so a seed user is inserted only
  when its id is absent; and when the ids of the table were pairwise different (as the
  primary key has them), they still are afterwards: no two users share a seed id.
\<close>

theorem lifespan_idempotent:
  "\<exists>t1. lifespan t = Inr t1
      \<and> lifespan t1 = Inr t1
      \<and> mset t1 = mset t + mset (filter (\<lambda>user. ident user \<notin> ident ` set t) users)
      \<and> (distinct (map ident t) \<longrightarrow> distinct (map ident t1))"
proof -
  obtain t1 where run: "seed users t = Inr t1" using seed_Inr by blast
  then have "ident ` set t1 = ident ` set t \<union> ident ` set users" by (rule seed_ids)
  then have "\<forall>u\<in>set users. ident u \<in> ident ` set t1" by simp
  then have again: "seed users t1 = Inr t1" by (rule seed_present)
  have rows: "mset t1 = mset t + mset (filter (\<lambda>user. ident user \<notin> ident ` set t) users)"
    using distinct_users run by (rule seed_mset)
  have "distinct (map ident t) \<longrightarrow> distinct (map ident t1)"
    using run by (auto intro: seed_distinct)
  with run again rows show ?thesis by (simp add: lifespan_def)
qed

theorem lifespan_idempotent_witness:
  "distinct (map ident [\<lparr>id' = 2, name = ''Judy'', dob = date 1980 5 17\<rparr>])
   \<and> (\<exists>t1. lifespan [\<lparr>id' = 2, name = ''Judy'', dob = date 1980 5 17\<rparr>] = Inr t1
        \<and> lifespan t1 = Inr t1
        \<and> mset t1 = mset [\<lparr>id' = 2, name = ''Judy'', dob = date 1980 5 17\<rparr>]
            + mset (filter (\<lambda>user. ident user
                  \<notin> ident ` set [\<lparr>id' = 2, name = ''Judy'', dob = date 1980 5 17\<rparr>]) users)
        \<and> distinct (map ident t1))"
  using lifespan_idempotent [of "[\<lparr>id' = 2, name = ''Judy'', dob = date 1980 5 17\<rparr>]"]
  by simp

section \<open>No update in place\<close>

text \<open>
  Claim C9. No operation changes the fields of a row that stays: for every request
  handled by the application, and for start-up, a user id found both before and after
  has the same name and the same date of birth after as before.
\<close>

theorem no_update_in_place:
  assumes "app rnd r t = (resp, t') \<or> lifespan t = Inr t'"
    and "session_get t i = Inr (Some u)"
    and "session_get t' i = Inr (Some u')"
  shows "name u' = name u \<and> dob u' = dob u"
proof -
  have "session_get t' i = Inr (Some u)"
    using assms(1)
  proof
    assume run: "app rnd r t = (resp, t')"
    show ?thesis
    proof (cases r)
      case GET_user_add
      with run assms(2) show ?thesis by simp
    next
      case (POST_user_add form)
      show ?thesis
      proof (cases "next_rowid rnd t")
        case (Inl e)
        then have "add_user_post rnd form t = (Inl e, t)" by (rule add_user_post_Inl)
        with POST_user_add run assms(2) show ?thesis by simp
      next
        case (Inr k)
        let ?new = "\<lparr>id' = word_of_int k, name = form_name form, dob = form_dob form\<rparr>"
        from Inr have "add_user_post rnd form t
            = (Inr (FormResponse (GoToEvent ''/'')), insort_key ident ?new t)"
          by (rule add_user_post_Inr)
        with POST_user_add run have t': "t' = insort_key ident ?new t" by simp
        from Inr have unused: "k \<notin> ident ` set t" and "- (2 ^ 63) \<le> k" "k \<le> MAX_ROWID"
          using next_rowid_unused by blast+
        then have "ident ?new = k" by (simp add: ident_word_of_int)
        moreover from assms(2) have "i \<in> ident ` set t" by (rule session_get_Some_mem)
        ultimately have "ident ?new \<noteq> i" using unused by auto
        then have "session_get (insort_key ident ?new t) i = session_get t i"
          by (rule session_get_insort_other)
        with t' assms(2) show ?thesis by simp
      qed
    next
      case GET_api
      with run assms(2) show ?thesis by simp
    next
      case (GET_user j)
      with run assms(2) show ?thesis by (auto split: sum.splits)
    next
      case (POST_user_delete j form)
      show ?thesis
      proof (cases "j < - (2 ^ 63) \<or> MAX_ROWID < j")
        case True
        then have "delete_user j form t = (Inl OverflowError, t)"
          by (rule delete_user_overflow)
        with POST_user_delete run assms(2) show ?thesis by simp
      next
        case False
        then have "- (2 ^ 63) \<le> j" "j \<le> MAX_ROWID" by auto
        then have "delete_user j form t
            = (Inr (FormResponse (GoToEvent ''/'')), filter (\<lambda>u. ident u \<noteq> j) t)"
          by (rule delete_user_fits)
        with POST_user_delete run have t': "t' = filter (\<lambda>u. ident u \<noteq> j) t" by simp
        have "j \<noteq> i"
        proof
          assume "j = i"
          with t' have "i \<notin> ident ` set t'" by auto
          moreover from assms(3) have "i \<in> ident ` set t'" by (rule session_get_Some_mem)
          ultimately show False by simp
        qed
        then have "session_get (filter (\<lambda>u. ident u \<noteq> j) t) i = session_get t i"
          by (rule session_get_filter_other)
        with t' assms(2) show ?thesis by simp
      qed
    next
      case (GET_path p)
      with run assms(2) show ?thesis by simp
    qed
  next
    assume "lifespan t = Inr t'"
    then have "seed users t = Inr t'" by (simp add: lifespan_def)
    then show ?thesis using assms(2) by (rule seed_get)
  qed
  with assms(3) show ?thesis by simp
qed

theorem no_update_in_place_witness:
  "(app (\<lambda>n. 0) (POST_user_delete 2 \<lparr>confirm = True\<rparr>) users
      = (Form (FormResponse (GoToEvent ''/'')),
         [\<lparr>id' = 1, name = ''John'', dob = date 1990 1 1\<rparr>,
          \<lparr>id' = 3, name = ''Jill'', dob = date 1992 1 1\<rparr>,
          \<lparr>id' = 4, name = ''Jane'', dob = date 1993 1 1\<rparr>])
    \<or> lifespan users
      = Inr [\<lparr>id' = 1, name = ''John'', dob = date 1990 1 1\<rparr>,
             \<lparr>id' = 3, name = ''Jill'', dob = date 1992 1 1\<rparr>,
             \<lparr>id' = 4, name = ''Jane'', dob = date 1993 1 1\<rparr>])
   \<and> session_get users 1 = Inr (Some \<lparr>id' = 1, name = ''John'', dob = date 1990 1 1\<rparr>)
   \<and> session_get [\<lparr>id' = 1, name = ''John'', dob = date 1990 1 1\<rparr>,
                  \<lparr>id' = 3, name = ''Jill'', dob = date 1992 1 1\<rparr>,
                  \<lparr>id' = 4, name = ''Jane'', dob = date 1993 1 1\<rparr>] 1
       = Inr (Some \<lparr>id' = 1, name = ''John'', dob = date 1990 1 1\<rparr>)
   \<and> name \<lparr>id' = 1, name = ''John'', dob = date 1990 1 1\<rparr> = ''John''
   \<and> dob \<lparr>id' = 1, name = ''John'', dob = date 1990 1 1\<rparr> = date 1990 1 1"
proof -
  let ?john = "\<lparr>id' = 1, name = ''John'', dob = date 1990 1 1\<rparr>"
  let ?t' = "[?john,
              \<lparr>id' = 3, name = ''Jill'', dob = date 1992 1 1\<rparr>,
              \<lparr>id' = 4, name = ''Jane'', dob = date 1993 1 1\<rparr>]"
  have fits: "- (2 ^ 63) \<le> (2::int)" "(2::int) \<le> MAX_ROWID"
    by (simp_all add: MAX_ROWID_def)
  have run: "app (\<lambda>n. 0) (POST_user_delete 2 \<lparr>confirm = True\<rparr>) users
               = (Form (FormResponse (GoToEvent ''/'')), ?t')
             \<or> lifespan users = Inr ?t'"
    by (simp add: delete_user_fits [OF fits] users_def ident_def)
  have before: "session_get users 1 = Inr (Some ?john)"
    by (simp add: session_get_def users_def ident_def MAX_ROWID_def)
  have after: "session_get ?t' 1 = Inr (Some ?john)"
    by (simp add: session_get_def ident_def MAX_ROWID_def)
  show ?thesis
    using run before after no_update_in_place [OF run before after] by simp
qed

section \<open>The scenario of the specification\<close>

text \<open>
  Claim C8. From the empty table, start-up gives the four users John (1990-01-01), Jack
  (1991-01-01), Jill (1992-01-01) and Jane (1993-01-01); the list view lists the four;
  adding Amy (1994-01-01) gives her the id 5 and the list view then lists five users,
  Amy among them; deleting id 5 with the flag set gives back the table of the four,
  which the list view lists.
\<close>

theorem scenario:
  "lifespan [] = Inr users
   \<and> users = [\<lparr>id' = 1, name = ''John'', dob = date 1990 1 1\<rparr>,
              \<lparr>id' = 2, name = ''Jack'', dob = date 1991 1 1\<rparr>,
              \<lparr>id' = 3, name = ''Jill'', dob = date 1992 1 1\<rparr>,
              \<lparr>id' = 4, name = ''Jane'', dob = date 1993 1 1\<rparr>]
   \<and> app rnd GET_api users = (FastUI (users_table users), users)
   \<and> listed (users_table users) = users
   \<and> length (listed (users_table users)) = 4
   \<and> app rnd (POST_user_add \<lparr>form_name = ''Amy'', form_dob = date 1994 1 1\<rparr>) users
       = (Form (FormResponse (GoToEvent ''/'')),
          users @ [\<lparr>id' = 5, name = ''Amy'', dob = date 1994 1 1\<rparr>])
   \<and> listed (users_table (users @ [\<lparr>id' = 5, name = ''Amy'', dob = date 1994 1 1\<rparr>]))
       = users @ [\<lparr>id' = 5, name = ''Amy'', dob = date 1994 1 1\<rparr>]
   \<and> length (listed (users_table (users @ [\<lparr>id' = 5, name = ''Amy'', dob = date 1994 1 1\<rparr>]))) = 5
   \<and> app rnd (POST_user_delete 5 \<lparr>confirm = True\<rparr>)
         (users @ [\<lparr>id' = 5, name = ''Amy'', dob = date 1994 1 1\<rparr>])
       = (Form (FormResponse (GoToEvent ''/'')), users)"
proof -
  have seeded: "lifespan [] = Inr users"
    by (simp add: lifespan_def users_def session_get_def session_add_def ident_def
        MAX_ROWID_def)
  have next5: "next_rowid rnd users = Inr 5"
    by (simp add: next_rowid_def users_def ident_def MAX_ROWID_def)
  have added: "app rnd (POST_user_add \<lparr>form_name = ''Amy'', form_dob = date 1994 1 1\<rparr>) users
       = (Form (FormResponse (GoToEvent ''/'')),
          users @ [\<lparr>id' = 5, name = ''Amy'', dob = date 1994 1 1\<rparr>])"
    by (simp add: add_user_post_Inr [OF next5]) (simp add: users_def ident_def)
  have fits: "- (2 ^ 63) \<le> (5::int)" "(5::int) \<le> MAX_ROWID"
    by (simp_all add: MAX_ROWID_def)
  have deleted: "app rnd (POST_user_delete 5 \<lparr>confirm = True\<rparr>)
         (users @ [\<lparr>id' = 5, name = ''Amy'', dob = date 1994 1 1\<rparr>])
       = (Form (FormResponse (GoToEvent ''/'')), users)"
    by (simp add: delete_user_fits [OF fits] users_def ident_def)
  have four: "length users = 4" by (simp add: users_def)
  show ?thesis
    using seeded added deleted four by (simp add: listed_users_table) (simp add: users_def)
qed

end
